theory Spec2Isabelle
  imports Main
begin

section \<open>caffe2.python.scope: thread-local name, device and tags scopes\<close>

text \<open>
  The module keeps three attributes on a \<^verbatim>\<open>threading.local()\<close> object:
  \<^verbatim>\<open>tags\<close>, \<^verbatim>\<open>namescope\<close> and \<^verbatim>\<open>devicescope\<close>. Four generator functions
  decorated with \<^verbatim>\<open>contextlib.contextmanager\<close> (\<^verbatim>\<open>Tags\<close>, \<^verbatim>\<open>NameScope\<close>,
  \<^verbatim>\<open>DeviceScope\<close>, \<^verbatim>\<open>EmptyDeviceScope\<close>) install a new value for the block of a
  \<^verbatim>\<open>with\<close> statement and put the old one back in their \<^verbatim>\<open>finally\<close> clause.

  The embedding passes the state explicitly. An attribute that was never assigned on the
  running thread is \<open>None\<close>; the Python value \<^verbatim>\<open>None\<close> stored in an attribute is
  \<open>Some None\<close>. Device descriptors are objects: the state carries an object store, an
  attribute holds a reference into it, and copying or assigning a field is an update of
  the store.
\<close>

subsection \<open>Values, exceptions and the state\<close>

type_synonym ref = nat

text \<open>
  Modelled from the spec: \<^verbatim>\<open>caffe2_pb2.DeviceOption\<close> is generated from a protocol
  buffer schema that is not among the source files. The spec describes it as an opaque,
  comparable, copyable value with one optional field, the node identifier. The record keeps
  that field (\<open>None\<close> when \<^verbatim>\<open>HasField('node_name')\<close> is false) and folds every other
  field into one comparable value, \<open>0\<close> for a freshly constructed message.
\<close>

record DeviceOption =
  node_name :: "string option"
  other_fields :: nat

definition DeviceOption_new :: DeviceOption where
  "DeviceOption_new = \<lparr>node_name = None, other_fields = 0\<rparr>"

definition HasField_node_name :: "DeviceOption \<Rightarrow> bool" where
  "HasField_node_name d = (node_name d \<noteq> None)"

text \<open>
  A dictionary of tags, in insertion order. Python dictionaries have pairwise distinct
  keys; \<open>wf_dict\<close> says so, and two dictionaries are equal in Python when they hold the
  same items in any order, that is when \<open>map_of\<close> agrees.
\<close>

type_synonym tagdict = "(string \<times> string) list"

definition wf_dict :: "tagdict \<Rightarrow> bool" where
  "wf_dict d = distinct (map fst d)"

datatype exn =
    AssertionError string
  | ValueError string
  | AttributeError string
  | Exception string

record pystate =
  tags :: "tagdict option option"
  namescope :: "string option"
  devicescope :: "ref option option"
  heap :: "DeviceOption list"

text \<open>A thread that has not touched the module yet: no attribute is set.\<close>

definition fresh_thread :: "DeviceOption list \<Rightarrow> pystate" where
  "fresh_thread h = \<lparr>tags = None, namescope = None, devicescope = None, heap = h\<rparr>"

definition NAMESCOPE_SEPARATOR :: string where
  "NAMESCOPE_SEPARATOR = ''/''"

subsection \<open>Truthiness and string helpers\<close>

text \<open>
  \<^verbatim>\<open>if x:\<close> on an optional string is false for \<^verbatim>\<open>None\<close> and for the empty string.
\<close>

definition truthy_str :: "string option \<Rightarrow> bool" where
  "truthy_str x = (case x of None \<Rightarrow> False | Some s \<Rightarrow> s \<noteq> [])"

text \<open>
  Modelled from the spec: the descriptor type is not among the source files. Protocol
  buffer messages define neither \<^verbatim>\<open>__bool__\<close> nor \<^verbatim>\<open>__len__\<close>, so every message
  object is true in a condition, whatever its fields; only \<^verbatim>\<open>None\<close> is false.
\<close>

definition truthy_ref :: "ref option \<Rightarrow> bool" where
  "truthy_ref x = (case x of None \<Rightarrow> False | Some r \<Rightarrow> True)"

text \<open>\<^verbatim>\<open>s.endswith(suffix)\<close>\<close>

definition endswith :: "string \<Rightarrow> string \<Rightarrow> bool" where
  "endswith s suf = (length suf \<le> length s \<and> drop (length s - length suf) s = suf)"

subsection \<open>The accessors\<close>

definition CurrentTags :: "pystate \<Rightarrow> tagdict option \<times> pystate" where
  "CurrentTags s =
     (case tags s of
        None \<Rightarrow> (None, s\<lparr>tags := Some None\<rparr>)
      | Some t \<Rightarrow> (t, s))"

definition CurrentNameScope :: "pystate \<Rightarrow> string \<times> pystate" where
  "CurrentNameScope s =
     (case namescope s of
        None \<Rightarrow> ('''', s\<lparr>namescope := Some ''''\<rparr>)
      | Some n \<Rightarrow> (n, s))"

definition CurrentDeviceScope :: "pystate \<Rightarrow> ref option \<times> pystate" where
  "CurrentDeviceScope s =
     (case devicescope s of
        None \<Rightarrow> (None, s\<lparr>devicescope := Some None\<rparr>)
      | Some d \<Rightarrow> (d, s))"

subsection \<open>The with statement over a generator context manager\<close>

text \<open>
  Each guard is a generator with one \<^verbatim>\<open>yield\<close> inside \<^verbatim>\<open>try: ... finally:\<close>.
  The code before the \<^verbatim>\<open>yield\<close> is the guard's entry: it either raises, and then
  the block never runs, or reaches the \<^verbatim>\<open>yield\<close> with its local variables (the
  frame) set. The \<^verbatim>\<open>finally\<close> clause is the guard's exit; it ends in one of three
  ways.
\<close>

datatype completion = FallThrough | Return | Raise exn

text \<open>
  A block is a state transformer that ends normally (\<open>None\<close>) or raises (\<open>Some e\<close>).

  \<^verbatim>\<open>__exit__\<close> resumes the generator with \<^verbatim>\<open>next\<close> after a normal block and
  with \<^verbatim>\<open>throw(e)\<close> after a block that raised \<open>e\<close>; either way the
  \<^verbatim>\<open>finally\<close> clause runs.
  \<^item> If the clause raises, that exception leaves the \<^verbatim>\<open>with\<close> statement.
  \<^item> If the clause falls off its end, the pending exception (if any) is raised again
    by the generator, \<^verbatim>\<open>__exit__\<close> returns false and the \<^verbatim>\<open>with\<close> statement
    raises it; with nothing pending the statement ends normally.
  \<^item> If the clause executes \<^verbatim>\<open>return\<close>, the pending exception is discarded, the
    generator finishes with \<^verbatim>\<open>StopIteration\<close>, \<^verbatim>\<open>__exit__\<close> returns true and
    the \<^verbatim>\<open>with\<close> statement ends normally.
\<close>

definition with_contextmanager ::
  "(pystate \<Rightarrow> (exn + 'k) \<times> pystate) \<Rightarrow> ('k \<Rightarrow> pystate \<Rightarrow> completion \<times> pystate) \<Rightarrow>
   (pystate \<Rightarrow> exn option \<times> pystate) \<Rightarrow> pystate \<Rightarrow> exn option \<times> pystate" where
  "with_contextmanager enter fin block s =
     (case enter s of
        (Inl e, s1) \<Rightarrow> (Some e, s1)
      | (Inr k, s1) \<Rightarrow>
          (case block s1 of
             (pending, s2) \<Rightarrow>
               (case fin k s2 of
                  (FallThrough, s3) \<Rightarrow> (pending, s3)
                | (Return, s3) \<Rightarrow> (None, s3)
                | (Raise e, s3) \<Rightarrow> (Some e, s3))))"

text \<open>Two blocks used in examples: \<^verbatim>\<open>pass\<close> and \<^verbatim>\<open>raise e\<close>.\<close>

definition pass :: "pystate \<Rightarrow> exn option \<times> pystate" where
  "pass s = (None, s)"

definition raise :: "exn \<Rightarrow> pystate \<Rightarrow> exn option \<times> pystate" where
  "raise e s = (Some e, s)"

subsection \<open>NameScope\<close>

text \<open>
  The argument \<^verbatim>\<open>prefix\<close> is a string or \<^verbatim>\<open>None\<close>, which is what the guard's
  \<^verbatim>\<open>isinstance\<close> assertion admits. The frame at the \<^verbatim>\<open>yield\<close> holds
  \<^verbatim>\<open>old_scope\<close> and the rebound \<^verbatim>\<open>prefix\<close>. Line 96 and line 101 read the
  attribute itself, not \<^verbatim>\<open>CurrentNameScope()\<close>; a missing attribute raises.
\<close>

definition NameScope_enter ::
  "string option \<Rightarrow> bool \<Rightarrow> pystate \<Rightarrow> (exn + (string \<times> string)) \<times> pystate" where
  "NameScope_enter prefix reset s =
     (case CurrentNameScope s of
        (old_scope, s1) \<Rightarrow>
          (let prefix' = (case prefix of
                            None \<Rightarrow> ''''
                          | Some p \<Rightarrow> if truthy_str (Some p) then p @ NAMESCOPE_SEPARATOR else '''')
           in if reset then (Inr (old_scope, prefix'), s1\<lparr>namescope := Some prefix'\<rparr>)
              else (case namescope s1 of
                      None \<Rightarrow> (Inl (AttributeError ''namescope''), s1)
                    | Some cur \<Rightarrow>
                        (Inr (old_scope, prefix'), s1\<lparr>namescope := Some (cur @ prefix')\<rparr>))))"

definition NameScope_finally :: "string \<times> string \<Rightarrow> pystate \<Rightarrow> completion \<times> pystate" where
  "NameScope_finally k s =
     (case k of
        (old_scope, prefix') \<Rightarrow>
          (case namescope s of
             None \<Rightarrow> (Raise (AttributeError ''namescope''), s)
           | Some cur \<Rightarrow>
               if endswith cur prefix'
               then (FallThrough, s\<lparr>namescope := Some old_scope\<rparr>)
               else (Raise (AssertionError
                       ''The namescope variable is changed from outside NameScope() calls.''), s)))"

definition NameScope ::
  "string option \<Rightarrow> bool \<Rightarrow> (pystate \<Rightarrow> exn option \<times> pystate) \<Rightarrow> pystate \<Rightarrow> exn option \<times> pystate" where
  "NameScope prefix reset = with_contextmanager (NameScope_enter prefix reset) NameScope_finally"

subsection \<open>DeviceScope and EmptyDeviceScope\<close>

text \<open>
  Store operations on descriptors: \<^verbatim>\<open>dst.CopyFrom(src)\<close> overwrites the object at
  \<open>dst\<close> with the fields of the object at \<open>src\<close>; assigning \<^verbatim>\<open>node_name\<close> sets the
  field; reading it gives the value, or the empty string when the field is unset.
\<close>

definition CopyFrom :: "ref \<Rightarrow> ref \<Rightarrow> pystate \<Rightarrow> pystate" where
  "CopyFrom dst src s = s\<lparr>heap := (heap s)[dst := heap s ! src]\<rparr>"

definition set_node_name :: "ref \<Rightarrow> string \<Rightarrow> pystate \<Rightarrow> pystate" where
  "set_node_name r n s = s\<lparr>heap := (heap s)[r := (heap s ! r)\<lparr>node_name := Some n\<rparr>]\<rparr>"

definition get_node_name :: "DeviceOption \<Rightarrow> string" where
  "get_node_name d = (case node_name d of None \<Rightarrow> '''' | Some n \<Rightarrow> n)"

text \<open>
  \<^verbatim>\<open>_threadlocal_scope.devicescope == new_scope\<close>: messages are equal when their
  fields are; \<^verbatim>\<open>None\<close> equals no message.
\<close>

definition DeviceOption_eq :: "pystate \<Rightarrow> ref option \<Rightarrow> ref \<Rightarrow> bool" where
  "DeviceOption_eq s cur new_scope =
     (case cur of None \<Rightarrow> False | Some r \<Rightarrow> heap s ! r = heap s ! new_scope)"

text \<open>
  \<^verbatim>\<open>scope\<close> is \<^verbatim>\<open>None\<close> or a reference to a descriptor (the \<^verbatim>\<open>isinstance\<close>
  assertion of the true branch then holds), \<^verbatim>\<open>node_name\<close> is \<^verbatim>\<open>None\<close> or a string.
  \<^verbatim>\<open>new_scope\<close> is a new object, allocated at the end of the store. The frame at the
  \<^verbatim>\<open>yield\<close> holds \<^verbatim>\<open>old_scope\<close> and \<^verbatim>\<open>new_scope\<close>.
\<close>

definition DeviceScope_enter ::
  "ref option \<Rightarrow> string option \<Rightarrow> pystate \<Rightarrow> (exn + (ref option \<times> ref)) \<times> pystate" where
  "DeviceScope_enter scope node_name_arg s =
     (let new_scope = length (heap s);
          s0 = s\<lparr>heap := heap s @ [DeviceOption_new]\<rparr>
      in case (if truthy_ref scope
               then (case scope of Some r \<Rightarrow> Inr (CopyFrom new_scope r s0) | None \<Rightarrow> Inr s0)
               else if truthy_str node_name_arg then Inr s0
               else Inl (AssertionError
                      ''At least one argument should be non-null in DeviceScope'')) of
           Inl e \<Rightarrow> (Inl e, s0)
         | Inr s1 \<Rightarrow>
             (let s2 = (case node_name_arg of
                          None \<Rightarrow> s1
                        | Some n \<Rightarrow> if truthy_str (Some n) then set_node_name new_scope n s1 else s1)
              in case CurrentDeviceScope s2 of
                   (old_scope, s3) \<Rightarrow>
                     (let s4 = (case old_scope of
                                  None \<Rightarrow> s3
                                | Some r \<Rightarrow>
                                    if truthy_ref (Some r) \<and> HasField_node_name (heap s3 ! r) \<and>
                                       \<not> HasField_node_name (heap s3 ! new_scope)
                                    then set_node_name new_scope (get_node_name (heap s3 ! r)) s3
                                    else s3)
                      in (Inr (old_scope, new_scope), s4\<lparr>devicescope := Some (Some new_scope)\<rparr>))))"

definition DeviceScope_finally :: "ref option \<times> ref \<Rightarrow> pystate \<Rightarrow> completion \<times> pystate" where
  "DeviceScope_finally k s =
     (case k of
        (old_scope, new_scope) \<Rightarrow>
          (case devicescope s of
             None \<Rightarrow> (Raise (AttributeError ''devicescope''), s)
           | Some cur \<Rightarrow>
               if DeviceOption_eq s cur new_scope
               then (FallThrough, s\<lparr>devicescope := Some old_scope\<rparr>)
               else (Raise (AssertionError
                       ''The device scope is changed from outside DeviceScope() calls.''), s)))"

definition DeviceScope ::
  "ref option \<Rightarrow> string option \<Rightarrow> (pystate \<Rightarrow> exn option \<times> pystate) \<Rightarrow>
   pystate \<Rightarrow> exn option \<times> pystate" where
  "DeviceScope scope node_name_arg =
     with_contextmanager (DeviceScope_enter scope node_name_arg) DeviceScope_finally"

text \<open>
  \<^verbatim>\<open>EmptyDeviceScope\<close> assigns \<^verbatim>\<open>None\<close> as the first statement of its
  \<^verbatim>\<open>try\<close> block, and its \<^verbatim>\<open>finally\<close> clause ends with \<^verbatim>\<open>return\<close>.
\<close>

definition EmptyDeviceScope_enter :: "pystate \<Rightarrow> (exn + ref option) \<times> pystate" where
  "EmptyDeviceScope_enter s =
     (case CurrentDeviceScope s of
        (old_scope, s1) \<Rightarrow> (Inr old_scope, s1\<lparr>devicescope := Some None\<rparr>))"

definition EmptyDeviceScope_finally :: "ref option \<Rightarrow> pystate \<Rightarrow> completion \<times> pystate" where
  "EmptyDeviceScope_finally old_scope s = (Return, s\<lparr>devicescope := Some old_scope\<rparr>)"

definition EmptyDeviceScope ::
  "(pystate \<Rightarrow> exn option \<times> pystate) \<Rightarrow> pystate \<Rightarrow> exn option \<times> pystate" where
  "EmptyDeviceScope = with_contextmanager EmptyDeviceScope_enter EmptyDeviceScope_finally"

subsection \<open>Tags\<close>

text \<open>
  \<^verbatim>\<open>new_tags\<close> is a dictionary, as the guard's \<^verbatim>\<open>isinstance\<close> assertion demands.
  The message of the conflict error is the format string of the source, which has no
  space between its two pieces.
\<close>

definition conflict_message :: "string \<Rightarrow> string \<Rightarrow> string \<Rightarrow> string" where
  "conflict_message key v new_value =
     ''Tags conflict detected: key '' @ key @ '' hasold value '' @ v @
     '', then gets a new value '' @ new_value"

text \<open>
  The loop of \<^verbatim>\<open>_merge_tags\<close> over \<^verbatim>\<open>old_tags.items()\<close>, with the dictionary
  \<^verbatim>\<open>merged_new_tags\<close> it updates. A key that is new to a dictionary goes to its end.
\<close>

fun merge_loop :: "(string \<times> string) list \<Rightarrow> tagdict \<Rightarrow> exn + tagdict" where
  "merge_loop [] merged_new_tags = Inr merged_new_tags"
| "merge_loop ((key, v) # items) merged_new_tags =
     (case map_of merged_new_tags key of
        Some new_value \<Rightarrow>
          if v \<noteq> new_value then Inl (ValueError (conflict_message key v new_value))
          else merge_loop items merged_new_tags
      | None \<Rightarrow> merge_loop items (merged_new_tags @ [(key, v)]))"

definition merge_tags :: "tagdict option \<Rightarrow> tagdict \<Rightarrow> exn + tagdict" where
  "merge_tags old_tags new_tags =
     (let merged_new_tags = new_tags
      in case old_tags of
           None \<Rightarrow> Inr merged_new_tags
         | Some old \<Rightarrow> merge_loop old merged_new_tags)"

definition Tags_enter :: "tagdict \<Rightarrow> pystate \<Rightarrow> (exn + tagdict option) \<times> pystate" where
  "Tags_enter new_tags s =
     (case CurrentTags s of
        (old_tags, s1) \<Rightarrow>
          (case merge_tags old_tags new_tags of
             Inl e \<Rightarrow> (Inl e, s1)
           | Inr merged_new_tags \<Rightarrow> (Inr old_tags, s1\<lparr>tags := Some (Some merged_new_tags)\<rparr>)))"

definition Tags_finally :: "tagdict option \<Rightarrow> pystate \<Rightarrow> completion \<times> pystate" where
  "Tags_finally old_tags s = (FallThrough, s\<lparr>tags := Some old_tags\<rparr>)"

definition Tags ::
  "tagdict \<Rightarrow> (pystate \<Rightarrow> exn option \<times> pystate) \<Rightarrow> pystate \<Rightarrow> exn option \<times> pystate" where
  "Tags new_tags = with_contextmanager (Tags_enter new_tags) Tags_finally"

subsection \<open>Runs of guard entries and exits\<close>

text \<open>
  What code that uses the module can do to the state, seen from the module: read an
  accessor, enter a guard (which leaves a frame on the stack of open guards when the entry
  succeeds), leave the innermost open guard through its \<^verbatim>\<open>finally\<close> clause, and
  allocate or modify descriptor objects in the store. The \<^verbatim>\<open>with\<close> statement closes
  guards innermost first, so the open guards form a stack. No rule assigns an attribute
  from outside the module.
\<close>

datatype frame =
    NameFrame "string \<times> string"
  | DeviceFrame "ref option \<times> ref"
  | EmptyDeviceFrame "ref option"
  | TagsFrame "tagdict option"

definition exit_frame :: "frame \<Rightarrow> pystate \<Rightarrow> completion \<times> pystate" where
  "exit_frame f s =
     (case f of
        NameFrame k \<Rightarrow> NameScope_finally k s
      | DeviceFrame k \<Rightarrow> DeviceScope_finally k s
      | EmptyDeviceFrame k \<Rightarrow> EmptyDeviceScope_finally k s
      | TagsFrame k \<Rightarrow> Tags_finally k s)"

inductive reachable :: "pystate \<Rightarrow> frame list \<Rightarrow> bool" where
  start: "reachable (fresh_thread h) []"
| read_tags: "reachable s fs \<Longrightarrow> reachable (snd (CurrentTags s)) fs"
| read_name: "reachable s fs \<Longrightarrow> reachable (snd (CurrentNameScope s)) fs"
| read_device: "reachable s fs \<Longrightarrow> reachable (snd (CurrentDeviceScope s)) fs"
| store: "reachable s fs \<Longrightarrow> reachable (s\<lparr>heap := h\<rparr>) fs"
| enter_name:
    "reachable s fs \<Longrightarrow> NameScope_enter prefix reset s = (Inr k, s') \<Longrightarrow>
     reachable s' (NameFrame k # fs)"
| enter_device:
    "reachable s fs \<Longrightarrow> DeviceScope_enter scope nn s = (Inr k, s') \<Longrightarrow>
     reachable s' (DeviceFrame k # fs)"
| enter_empty_device:
    "reachable s fs \<Longrightarrow> EmptyDeviceScope_enter s = (Inr k, s') \<Longrightarrow>
     reachable s' (EmptyDeviceFrame k # fs)"
| enter_tags:
    "reachable s fs \<Longrightarrow> Tags_enter new_tags s = (Inr k, s') \<Longrightarrow>
     reachable s' (TagsFrame k # fs)"
| enter_device_fails:
    "reachable s fs \<Longrightarrow> DeviceScope_enter scope nn s = (Inl e, s') \<Longrightarrow> reachable s' fs"
| enter_tags_fails:
    "reachable s fs \<Longrightarrow> Tags_enter new_tags s = (Inl e, s') \<Longrightarrow> reachable s' fs"
| leave:
    "reachable s (f # fs) \<Longrightarrow> exit_frame f s = (c, s') \<Longrightarrow> reachable s' fs"

text \<open>The invariant of the name prefix: empty, or ending with the separator.\<close>

definition prefix_ok :: "string \<Rightarrow> bool" where
  "prefix_ok p = (p = [] \<or> last p = CHR ''/'')"

definition slot_ok :: "pystate \<Rightarrow> bool" where
  "slot_ok s = (case namescope s of None \<Rightarrow> True | Some p \<Rightarrow> prefix_ok p)"

definition frames_ok :: "frame list \<Rightarrow> bool" where
  "frames_ok fs = list_all (\<lambda>f. case f of NameFrame k \<Rightarrow> prefix_ok (fst k) | _ \<Rightarrow> True) fs"

text \<open>The mapping a tags value stands for; no tags (\<^verbatim>\<open>None\<close>) define no key.\<close>

definition mapping_of :: "tagdict option \<Rightarrow> string \<Rightarrow> string option" where
  "mapping_of d = (case d of None \<Rightarrow> Map.empty | Some items \<Rightarrow> map_of items)"

text \<open>
  The descriptor that a successful entry of \<^verbatim>\<open>DeviceScope\<close> leaves in the new object,
  written as one expression of the store \<open>h\<close>, the enclosing scope and the two arguments;
  \<open>DeviceScope_enter_result\<close> below proves that the entry computes it.
\<close>

definition installed :: "DeviceOption list \<Rightarrow> ref option \<Rightarrow> ref option \<Rightarrow> string option \<Rightarrow> DeviceOption" where
  "installed h old_scope scope nn =
     (let base = (case scope of None \<Rightarrow> DeviceOption_new | Some r \<Rightarrow> h ! r);
          named = (if truthy_str nn then base\<lparr>node_name := nn\<rparr> else base)
      in case old_scope of
           None \<Rightarrow> named
         | Some e \<Rightarrow> if node_name (h ! e) \<noteq> None \<and> node_name named = None
                     then named\<lparr>node_name := node_name (h ! e)\<rparr> else named)"

section \<open>Properties\<close>

subsection \<open>Auxiliary facts\<close>

lemmas guard_defs = with_contextmanager_def NameScope_def NameScope_enter_def NameScope_finally_def
  DeviceScope_def DeviceScope_enter_def DeviceScope_finally_def EmptyDeviceScope_def
  EmptyDeviceScope_enter_def EmptyDeviceScope_finally_def Tags_def Tags_enter_def Tags_finally_def
  CurrentTags_def CurrentNameScope_def CurrentDeviceScope_def

lemma endswith_append: "endswith (a @ b) b"
  by (simp add: endswith_def)

lemma endswith_Nil: "endswith s []"
  by (simp add: endswith_def)

text \<open>Entering \<^verbatim>\<open>NameScope\<close> never raises; this is its frame and the state it leaves.\<close>

lemma NameScope_enter_ok:
  "NameScope_enter prefix reset s =
     (Inr (fst (CurrentNameScope s),
           (case prefix of None \<Rightarrow> [] | Some p \<Rightarrow> if p \<noteq> [] then p @ ''/'' else [])),
      s\<lparr>namescope := Some ((if reset then [] else fst (CurrentNameScope s)) @
            (case prefix of None \<Rightarrow> [] | Some p \<Rightarrow> if p \<noteq> [] then p @ ''/'' else []))\<rparr>)"
  by (cases "namescope s"; cases prefix)
     (simp_all add: NameScope_enter_def CurrentNameScope_def truthy_str_def
        NAMESCOPE_SEPARATOR_def Let_def)

lemma NameScope_restores:
  assumes "NameScope_enter prefix reset s = (Inr k, s1)"
      and "block s1 = (out, s2)" and "namescope s2 = namescope s1"
  shows "NameScope prefix reset block s =
           (out, s2\<lparr>namescope := Some (fst (CurrentNameScope s))\<rparr>)"
  using assms
  by (auto simp: NameScope_enter_ok NameScope_def with_contextmanager_def NameScope_finally_def
        endswith_append endswith_Nil split: option.splits)

lemma DeviceScope_enter_slot:
  "DeviceScope_enter scope nn s = (Inr k, s1) \<Longrightarrow>
     k = (fst (CurrentDeviceScope s), length (heap s)) \<and>
     devicescope s1 = Some (Some (length (heap s)))"
  by (auto simp: DeviceScope_enter_def CurrentDeviceScope_def Let_def CopyFrom_def
        set_node_name_def split: option.splits if_splits sum.splits)

lemma DeviceScope_restores:
  assumes "DeviceScope_enter scope nn s = (Inr k, s1)"
      and "block s1 = (out, s2)" and "devicescope s2 = devicescope s1"
  shows "DeviceScope scope nn block s =
           (out, s2\<lparr>devicescope := Some (fst (CurrentDeviceScope s))\<rparr>)"
  using assms DeviceScope_enter_slot[OF assms(1)]
  by (auto simp: DeviceScope_def with_contextmanager_def DeviceScope_finally_def
        DeviceOption_eq_def)

lemma Tags_restores:
  assumes "Tags_enter new_tags s = (Inr k, s1)" and "block s1 = (out, s2)"
  shows "Tags new_tags block s = (out, s2\<lparr>tags := Some (fst (CurrentTags s))\<rparr>)"
  using assms
  by (auto simp: Tags_def with_contextmanager_def Tags_finally_def Tags_enter_def
        CurrentTags_def split: option.splits sum.splits)

subsection \<open>Errors raised inside a guarded block\<close>

text \<open>
  Claim C1 says that every guard, \<^verbatim>\<open>EmptyDeviceScope\<close> included, lets an error raised
  in its block propagate after restoring the slot. \<^verbatim>\<open>EmptyDeviceScope\<close> does restore
  the slot, but the \<^verbatim>\<open>return\<close> that ends its \<^verbatim>\<open>finally\<close> clause discards the
  error: on a new thread, \<^verbatim>\<open>with EmptyDeviceScope(): raise Exception('boom')\<close> ends
  normally.
\<close>

theorem EmptyDeviceScope_swallows_error:
  "EmptyDeviceScope (raise (Exception ''boom'')) (fresh_thread []) =
     (None, \<lparr>tags = None, namescope = None, devicescope = Some None, heap = []\<rparr>)"
  by (simp add: guard_defs raise_def fresh_thread_def)

text \<open>
  Claim C7: for \<^verbatim>\<open>NameScope\<close>, \<^verbatim>\<open>DeviceScope\<close> and \<^verbatim>\<open>Tags\<close>, when the entry
  succeeded and the block leaves the guard's attribute as it found it (which is what
  properly nested guards do), the \<^verbatim>\<open>with\<close> statement ends the way the block ended,
  normally or with the block's error, in the block's final state with the attribute set
  back to the value captured at entry; reading the accessor afterwards gives the value
  it gave before the entry.
\<close>

theorem guards_restore_captured_value:
  "(NameScope_enter prefix reset s = (Inr kn, sn) \<and> block sn = (out, sn') \<and>
      namescope sn' = namescope sn \<longrightarrow>
      NameScope prefix reset block s =
        (out, sn'\<lparr>namescope := Some (fst (CurrentNameScope s))\<rparr>) \<and>
      fst (CurrentNameScope (snd (NameScope prefix reset block s))) = fst (CurrentNameScope s))
   \<and> (DeviceScope_enter scope nn s = (Inr kd, sd) \<and> block sd = (out, sd') \<and>
      devicescope sd' = devicescope sd \<longrightarrow>
      DeviceScope scope nn block s =
        (out, sd'\<lparr>devicescope := Some (fst (CurrentDeviceScope s))\<rparr>) \<and>
      fst (CurrentDeviceScope (snd (DeviceScope scope nn block s))) = fst (CurrentDeviceScope s))
   \<and> (Tags_enter new_tags s = (Inr kt, st) \<and> block st = (out, st') \<and>
      tags st' = tags st \<longrightarrow>
      Tags new_tags block s = (out, st'\<lparr>tags := Some (fst (CurrentTags s))\<rparr>) \<and>
      fst (CurrentTags (snd (Tags new_tags block s))) = fst (CurrentTags s))"
proof (intro conjI impI)
  assume a: "NameScope_enter prefix reset s = (Inr kn, sn) \<and> block sn = (out, sn') \<and>
      namescope sn' = namescope sn"
  then show r: "NameScope prefix reset block s =
        (out, sn'\<lparr>namescope := Some (fst (CurrentNameScope s))\<rparr>)"
    using NameScope_restores by blast
  show "fst (CurrentNameScope (snd (NameScope prefix reset block s))) = fst (CurrentNameScope s)"
    by (simp add: r CurrentNameScope_def)
next
  assume a: "DeviceScope_enter scope nn s = (Inr kd, sd) \<and> block sd = (out, sd') \<and>
      devicescope sd' = devicescope sd"
  then show r: "DeviceScope scope nn block s =
        (out, sd'\<lparr>devicescope := Some (fst (CurrentDeviceScope s))\<rparr>)"
    using DeviceScope_restores by blast
  show "fst (CurrentDeviceScope (snd (DeviceScope scope nn block s))) =
          fst (CurrentDeviceScope s)"
    by (simp add: r CurrentDeviceScope_def)
next
  assume a: "Tags_enter new_tags s = (Inr kt, st) \<and> block st = (out, st') \<and>
      tags st' = tags st"
  then show r: "Tags new_tags block s = (out, st'\<lparr>tags := Some (fst (CurrentTags s))\<rparr>)"
    using Tags_restores by blast
  show "fst (CurrentTags (snd (Tags new_tags block s))) = fst (CurrentTags s)"
    by (simp add: r CurrentTags_def)
qed

theorem guards_restore_captured_value_witness:
  "NameScope_enter (Some ''a'') False (fresh_thread [\<lparr>node_name = None, other_fields = 9\<rparr>]) =
     (Inr ('''', ''a/''),
      \<lparr>tags = None, namescope = Some ''a/'', devicescope = None,
         heap = [\<lparr>node_name = None, other_fields = 9\<rparr>]\<rparr>)
   \<and> NameScope (Some ''a'') False (raise (Exception ''boom''))
       (fresh_thread [\<lparr>node_name = None, other_fields = 9\<rparr>]) =
     (Some (Exception ''boom''),
      \<lparr>tags = None, namescope = Some '''', devicescope = None,
         heap = [\<lparr>node_name = None, other_fields = 9\<rparr>]\<rparr>)
   \<and> DeviceScope_enter (Some 0) None (fresh_thread [\<lparr>node_name = None, other_fields = 9\<rparr>]) =
     (Inr (None, 1),
      \<lparr>tags = None, namescope = None, devicescope = Some (Some 1),
         heap = [\<lparr>node_name = None, other_fields = 9\<rparr>, \<lparr>node_name = None, other_fields = 9\<rparr>]\<rparr>)
   \<and> DeviceScope (Some 0) None (raise (Exception ''boom''))
       (fresh_thread [\<lparr>node_name = None, other_fields = 9\<rparr>]) =
     (Some (Exception ''boom''),
      \<lparr>tags = None, namescope = None, devicescope = Some None,
         heap = [\<lparr>node_name = None, other_fields = 9\<rparr>, \<lparr>node_name = None, other_fields = 9\<rparr>]\<rparr>)
   \<and> Tags_enter [(''key1'', ''value1'')] (fresh_thread [\<lparr>node_name = None, other_fields = 9\<rparr>]) =
     (Inr None,
      \<lparr>tags = Some (Some [(''key1'', ''value1'')]), namescope = None, devicescope = None,
         heap = [\<lparr>node_name = None, other_fields = 9\<rparr>]\<rparr>)
   \<and> Tags [(''key1'', ''value1'')] (raise (Exception ''boom''))
       (fresh_thread [\<lparr>node_name = None, other_fields = 9\<rparr>]) =
     (Some (Exception ''boom''),
      \<lparr>tags = Some None, namescope = None, devicescope = None,
         heap = [\<lparr>node_name = None, other_fields = 9\<rparr>]\<rparr>)"
  using guards_restore_captured_value
    [where s = "fresh_thread [\<lparr>node_name = None, other_fields = 9\<rparr>]"
       and block = "raise (Exception ''boom'')" and out = "Some (Exception ''boom'')"
       and prefix = "Some ''a''" and reset = False and kn = "('''', ''a/'')"
       and sn = "\<lparr>tags = None, namescope = Some ''a/'', devicescope = None,
                  heap = [\<lparr>node_name = None, other_fields = 9\<rparr>]\<rparr>"
       and sn' = "\<lparr>tags = None, namescope = Some ''a/'', devicescope = None,
                  heap = [\<lparr>node_name = None, other_fields = 9\<rparr>]\<rparr>"
       and scope = "Some 0" and nn = None and kd = "(None, 1)"
       and sd = "\<lparr>tags = None, namescope = None, devicescope = Some (Some 1),
         heap = [\<lparr>node_name = None, other_fields = 9\<rparr>, \<lparr>node_name = None, other_fields = 9\<rparr>]\<rparr>"
       and sd' = "\<lparr>tags = None, namescope = None, devicescope = Some (Some 1),
         heap = [\<lparr>node_name = None, other_fields = 9\<rparr>, \<lparr>node_name = None, other_fields = 9\<rparr>]\<rparr>"
       and new_tags = "[(''key1'', ''value1'')]" and kt = None
       and st = "\<lparr>tags = Some (Some [(''key1'', ''value1'')]), namescope = None, devicescope = None,
         heap = [\<lparr>node_name = None, other_fields = 9\<rparr>]\<rparr>"
       and st' = "\<lparr>tags = Some (Some [(''key1'', ''value1'')]), namescope = None, devicescope = None,
         heap = [\<lparr>node_name = None, other_fields = 9\<rparr>]\<rparr>"]
  by (simp add: NameScope_enter_ok DeviceScope_enter_def Tags_enter_def merge_tags_def
        CurrentTags_def CurrentNameScope_def CurrentDeviceScope_def raise_def fresh_thread_def
        truthy_ref_def truthy_str_def CopyFrom_def DeviceOption_new_def Let_def)

subsection \<open>The name prefix is empty or ends with the separator\<close>

lemma prefix_ok_append: "prefix_ok a \<Longrightarrow> prefix_ok b \<Longrightarrow> prefix_ok (a @ b)"
  by (auto simp: prefix_ok_def last_append)

lemma prefix_ok_segment:
  "prefix_ok (case prefix of None \<Rightarrow> [] | Some p \<Rightarrow> if p \<noteq> [] then p @ ''/'' else [])"
  by (auto simp: prefix_ok_def split: option.splits)

lemma slot_ok_CurrentNameScope: "slot_ok s \<Longrightarrow> prefix_ok (fst (CurrentNameScope s))"
  by (auto simp: slot_ok_def CurrentNameScope_def prefix_ok_def split: option.splits)

lemma DeviceScope_enter_namescope:
  "DeviceScope_enter scope nn s = (r, s') \<Longrightarrow> namescope s' = namescope s"
  by (auto simp: DeviceScope_enter_def CurrentDeviceScope_def Let_def CopyFrom_def
        set_node_name_def split: option.splits if_splits sum.splits)

lemma Tags_enter_namescope: "Tags_enter new_tags s = (r, s') \<Longrightarrow> namescope s' = namescope s"
  by (auto simp: Tags_enter_def CurrentTags_def split: option.splits sum.splits)

lemma reachable_inv: "reachable s fs \<Longrightarrow> slot_ok s \<and> frames_ok fs"
proof (induction rule: reachable.induct)
  case (start h)
  then show ?case by (simp add: slot_ok_def frames_ok_def fresh_thread_def)
next
  case (read_tags s fs)
  then show ?case by (auto simp: slot_ok_def CurrentTags_def split: option.splits)
next
  case (read_name s fs)
  then show ?case
    by (auto simp: slot_ok_def CurrentNameScope_def prefix_ok_def split: option.splits)
next
  case (read_device s fs)
  then show ?case by (auto simp: slot_ok_def CurrentDeviceScope_def split: option.splits)
next
  case (store s fs h)
  then show ?case by (simp add: slot_ok_def)
next
  case (enter_name s fs prefix reset k s')
  have old: "prefix_ok (fst (CurrentNameScope s))"
    using enter_name.IH by (simp add: slot_ok_CurrentNameScope)
  from enter_name.hyps(2) have k: "fst k = fst (CurrentNameScope s)"
    and s': "namescope s' = Some ((if reset then [] else fst (CurrentNameScope s)) @
            (case prefix of None \<Rightarrow> [] | Some p \<Rightarrow> if p \<noteq> [] then p @ ''/'' else []))"
    by (auto simp: NameScope_enter_ok)
  have "prefix_ok ((if reset then [] else fst (CurrentNameScope s)) @
            (case prefix of None \<Rightarrow> [] | Some p \<Rightarrow> if p \<noteq> [] then p @ ''/'' else []))"
    using old prefix_ok_segment[of prefix] by (intro prefix_ok_append) (auto simp: prefix_ok_def)
  then show ?case using enter_name.IH old k s' by (simp add: slot_ok_def frames_ok_def)
next
  case (enter_device s fs scope nn k s')
  then show ?case using DeviceScope_enter_namescope[OF enter_device.hyps(2)]
    by (simp add: slot_ok_def frames_ok_def)
next
  case (enter_empty_device s fs k s')
  then show ?case
    by (auto simp: slot_ok_def frames_ok_def EmptyDeviceScope_enter_def CurrentDeviceScope_def
          split: option.splits)
next
  case (enter_tags s fs new_tags k s')
  then show ?case using Tags_enter_namescope[OF enter_tags.hyps(2)]
    by (simp add: slot_ok_def frames_ok_def)
next
  case (enter_device_fails s fs scope nn e s')
  then show ?case using DeviceScope_enter_namescope[OF enter_device_fails.hyps(2)]
    by (simp add: slot_ok_def)
next
  case (enter_tags_fails s fs new_tags e s')
  then show ?case using Tags_enter_namescope[OF enter_tags_fails.hyps(2)]
    by (simp add: slot_ok_def)
next
  case (leave s f fs c s')
  then show ?case
    by (cases f)
       (auto simp: exit_frame_def slot_ok_def frames_ok_def NameScope_finally_def
          DeviceScope_finally_def EmptyDeviceScope_finally_def Tags_finally_def
          split: option.splits if_splits prod.splits)
qed

text \<open>
  Claim C8: a thread starts with no prefix (read as the empty string), and after any run of
  accessor reads, guard entries and guard exits the current name prefix is empty or ends
  with \<open>/\<close>. The invariant behind it: the attribute is unset or holds such a string, and
  so does the \<^verbatim>\<open>old_scope\<close> of every open \<^verbatim>\<open>NameScope\<close>.
\<close>

theorem name_prefix_invariant:
  "reachable s fs \<Longrightarrow> prefix_ok (fst (CurrentNameScope s))"
  using reachable_inv slot_ok_CurrentNameScope by blast

theorem name_prefix_invariant_witness:
  "reachable \<lparr>tags = None, namescope = Some ''a/b/'', devicescope = None, heap = []\<rparr>
     [NameFrame (''a/'', ''b/''), NameFrame ('''', ''a/'')]
   \<and> fst (CurrentNameScope \<lparr>tags = None, namescope = Some ''a/b/'', devicescope = None, heap = []\<rparr>)
       = ''a/b/''
   \<and> prefix_ok ''a/b/''"
proof -
  let ?s1 = "\<lparr>tags = None, namescope = Some ''a/'', devicescope = None, heap = []\<rparr>"
  let ?s2 = "\<lparr>tags = None, namescope = Some ''a/b/'', devicescope = None, heap = []\<rparr>"
  have e1: "NameScope_enter (Some ''a'') False (fresh_thread []) = (Inr ('''', ''a/''), ?s1)"
    by (simp add: NameScope_enter_ok CurrentNameScope_def fresh_thread_def)
  have e2: "NameScope_enter (Some ''b'') False ?s1 = (Inr (''a/'', ''b/''), ?s2)"
    by (simp add: NameScope_enter_ok CurrentNameScope_def)
  have r: "reachable ?s2 [NameFrame (''a/'', ''b/''), NameFrame ('''', ''a/'')]"
    using reachable.enter_name[OF reachable.enter_name[OF reachable.start e1] e2] .
  have c: "fst (CurrentNameScope ?s2) = ''a/b/''"
    by (simp add: CurrentNameScope_def)
  from name_prefix_invariant[OF r] r c show ?thesis by simp
qed

subsection \<open>Merging tags\<close>

text \<open>
  The loop of \<^verbatim>\<open>_merge_tags\<close>, by induction on the items of the enclosing dictionary
  with the dictionary under construction generalised: without a clash it ends with the
  union, with a clash it raises for the first clashing key.
\<close>

lemma merge_loop_ok:
  "distinct (map fst items) \<Longrightarrow>
   (\<forall>k v v'. (k, v) \<in> set items \<longrightarrow> map_of merged k = Some v' \<longrightarrow> v = v') \<Longrightarrow>
   \<exists>m. merge_loop items merged = Inr m \<and> map_of m = map_of items ++ map_of merged \<and>
       (distinct (map fst merged) \<longrightarrow> distinct (map fst m))"
proof (induction items arbitrary: merged)
  case Nil
  then show ?case by simp
next
  case (Cons kv items)
  obtain key v where kv: "kv = (key, v)" by (cases kv)
  from Cons.prems(1) kv have dist: "distinct (map fst items)" and fresh: "key \<notin> fst ` set items"
    by auto
  show ?case
  proof (cases "map_of merged key")
    case None
    let ?merged' = "merged @ [(key, v)]"
    have other: "map_of ?merged' k = map_of merged k" if "k \<noteq> key" for k
      using that by (simp add: map_add_def split: option.splits)
    have compat: "\<forall>k w w'. (k, w) \<in> set items \<longrightarrow> map_of ?merged' k = Some w' \<longrightarrow> w = w'"
    proof (intro allI impI)
      fix k w w' assume a: "(k, w) \<in> set items" and b: "map_of ?merged' k = Some w'"
      from a fresh have "k \<noteq> key" by force
      with b other have "map_of merged k = Some w'" by simp
      with a Cons.prems(2) show "w = w'" by auto
    qed
    from Cons.IH[OF dist compat] obtain m where
      m: "merge_loop items ?merged' = Inr m" "map_of m = map_of items ++ map_of ?merged'"
         "distinct (map fst ?merged') \<longrightarrow> distinct (map fst m)"
      by blast
    have nokey: "map_of items key = None"
      using fresh by (simp add: map_of_eq_None_iff)
    have "map_of m = map_of (kv # items) ++ map_of merged"
    proof
      fix k show "map_of m k = (map_of (kv # items) ++ map_of merged) k"
        using m(2) None nokey kv by (cases "k = key") (auto simp: map_add_def split: option.splits)
    qed
    moreover have "distinct (map fst merged) \<longrightarrow> distinct (map fst m)"
      using m(3) None by (auto simp: map_of_eq_None_iff)
    moreover have "merge_loop (kv # items) merged = merge_loop items ?merged'"
      using None kv by simp
    ultimately show ?thesis using m(1) by metis
  next
    case (Some nv)
    with Cons.prems(2) kv have eq: "v = nv" by auto
    have compat: "\<forall>k w w'. (k, w) \<in> set items \<longrightarrow> map_of merged k = Some w' \<longrightarrow> w = w'"
      using Cons.prems(2) by auto
    from Cons.IH[OF dist compat] obtain m where
      m: "merge_loop items merged = Inr m" "map_of m = map_of items ++ map_of merged"
         "distinct (map fst merged) \<longrightarrow> distinct (map fst m)"
      by blast
    have "map_of m = map_of (kv # items) ++ map_of merged"
    proof
      fix k show "map_of m k = (map_of (kv # items) ++ map_of merged) k"
        using m(2) Some kv by (cases "k = key") (auto simp: map_add_def split: option.splits)
    qed
    moreover have "merge_loop (kv # items) merged = merge_loop items merged"
      using Some kv eq by simp
    ultimately show ?thesis using m(1,3) by metis
  qed
qed

lemma merge_loop_conflict:
  "distinct (map fst items) \<Longrightarrow>
   (k0, v0) \<in> set items \<Longrightarrow> map_of merged k0 = Some v0' \<Longrightarrow> v0 \<noteq> v0' \<Longrightarrow>
   \<exists>k v v'. (k, v) \<in> set items \<and> map_of merged k = Some v' \<and> v \<noteq> v' \<and>
       merge_loop items merged = Inl (ValueError (conflict_message k v v'))"
proof (induction items arbitrary: merged)
  case Nil
  then show ?case by simp
next
  case (Cons kv items)
  obtain key v where kv: "kv = (key, v)" by (cases kv)
  from Cons.prems(1) kv have dist: "distinct (map fst items)" and fresh: "key \<notin> fst ` set items"
    by auto
  show ?case
  proof (cases "map_of merged key")
    case None
    let ?merged' = "merged @ [(key, v)]"
    have other: "map_of ?merged' k = map_of merged k" if "k \<noteq> key" for k
      using that by (simp add: map_add_def split: option.splits)
    from Cons.prems(2,3) None kv have in_items: "(k0, v0) \<in> set items" by auto
    with fresh have ne: "k0 \<noteq> key" by force
    with Cons.prems(3) other have "map_of ?merged' k0 = Some v0'" by simp
    from Cons.IH[OF dist in_items this Cons.prems(4)] obtain k w w' where
      r: "(k, w) \<in> set items" "map_of ?merged' k = Some w'" "w \<noteq> w'"
         "merge_loop items ?merged' = Inl (ValueError (conflict_message k w w'))"
      by blast
    from r(1) fresh have "k \<noteq> key" by force
    with r(2) other have "map_of merged k = Some w'" by simp
    with r None kv show ?thesis by auto
  next
    case (Some nv)
    show ?thesis
    proof (cases "v = nv")
      case True
      have in_items: "(k0, v0) \<in> set items"
        using Cons.prems(2,3,4) Some True kv by auto
      from Cons.IH[OF dist in_items Cons.prems(3) Cons.prems(4)] obtain k w w' where
        r: "(k, w) \<in> set items" "map_of merged k = Some w'" "w \<noteq> w'"
           "merge_loop items merged = Inl (ValueError (conflict_message k w w'))"
        by blast
      with Some True kv show ?thesis by auto
    next
      case False
      with Some kv show ?thesis by auto
    qed
  qed
qed

lemma merge_loop_Inl:
  "merge_loop items merged = Inl e \<Longrightarrow>
   \<exists>k v v'. (k, v) \<in> set items \<and> v \<noteq> v' \<and> e = ValueError (conflict_message k v v')"
  by (induction items merged rule: merge_loop.induct) (auto split: option.splits if_splits)

lemma merge_tags_ok:
  assumes "case cur of None \<Rightarrow> True | Some old \<Rightarrow> wf_dict old"
      and "\<forall>k v v'. mapping_of cur k = Some v \<and> map_of new_tags k = Some v' \<longrightarrow> v = v'"
  shows "\<exists>m. merge_tags cur new_tags = Inr m \<and> map_of m = mapping_of cur ++ map_of new_tags \<and>
           (wf_dict new_tags \<longrightarrow> wf_dict m)"
proof (cases cur)
  case None
  then show ?thesis by (simp add: merge_tags_def mapping_of_def)
next
  case (Some old)
  with assms(1) have d: "distinct (map fst old)" by (simp add: wf_dict_def)
  have c: "\<forall>k v v'. (k, v) \<in> set old \<longrightarrow> map_of new_tags k = Some v' \<longrightarrow> v = v'"
    using assms(2) Some d by (auto simp: mapping_of_def)
  from merge_loop_ok[OF d c] show ?thesis
    using Some by (simp add: merge_tags_def mapping_of_def wf_dict_def)
qed

lemma merge_tags_conflict:
  assumes "case cur of None \<Rightarrow> True | Some old \<Rightarrow> wf_dict old"
      and "\<not> (\<forall>k v v'. mapping_of cur k = Some v \<and> map_of new_tags k = Some v' \<longrightarrow> v = v')"
  shows "\<exists>k v v'. mapping_of cur k = Some v \<and> map_of new_tags k = Some v' \<and> v \<noteq> v' \<and>
           merge_tags cur new_tags = Inl (ValueError (conflict_message k v v'))"
proof (cases cur)
  case None
  with assms(2) show ?thesis by (simp add: mapping_of_def)
next
  case (Some old)
  with assms(1) have d: "distinct (map fst old)" by (simp add: wf_dict_def)
  from assms(2) Some obtain k0 v0 v0' where
    c: "map_of old k0 = Some v0" "map_of new_tags k0 = Some v0'" "v0 \<noteq> v0'"
    by (auto simp: mapping_of_def)
  from c(1) have "(k0, v0) \<in> set old" by (rule map_of_SomeD)
  from merge_loop_conflict[OF d this c(2) c(3)] obtain k v v' where
    r: "(k, v) \<in> set old" "map_of new_tags k = Some v'" "v \<noteq> v'"
       "merge_loop old new_tags = Inl (ValueError (conflict_message k v v'))"
    by blast
  from r(1) d have "map_of old k = Some v" by simp
  with r Some show ?thesis by (auto simp: merge_tags_def mapping_of_def)
qed

lemma merge_tags_Inl:
  "merge_tags cur new_tags = Inl e \<Longrightarrow>
     cur \<noteq> None \<and> (\<exists>k v v'. v \<noteq> v' \<and> e = ValueError (conflict_message k v v'))"
  by (cases cur) (auto simp: merge_tags_def dest!: merge_loop_Inl)

text \<open>
  Claim C4: let \<open>cur\<close> be the current tags (possibly \<^verbatim>\<open>None\<close>) and \<open>new_tags\<close> the
  argument. If the two agree on every key they share (in particular if they share none),
  entering \<^verbatim>\<open>Tags\<close> succeeds and installs a dictionary whose mapping is the union of
  the two. Otherwise the entry raises \<^verbatim>\<open>ValueError\<close> whose message names a key that
  both define with different values, the enclosing value and the new value.
\<close>

theorem Tags_enter_merges_or_conflicts:
  assumes "CurrentTags s = (cur, s1)"
      and "case cur of None \<Rightarrow> True | Some old \<Rightarrow> wf_dict old"
  shows "((\<forall>k v v'. mapping_of cur k = Some v \<and> map_of new_tags k = Some v' \<longrightarrow> v = v') \<longrightarrow>
            (\<exists>m. Tags_enter new_tags s = (Inr cur, s1\<lparr>tags := Some (Some m)\<rparr>) \<and>
                 map_of m = mapping_of cur ++ map_of new_tags \<and>
                 (wf_dict new_tags \<longrightarrow> wf_dict m)))
       \<and> (\<not> (\<forall>k v v'. mapping_of cur k = Some v \<and> map_of new_tags k = Some v' \<longrightarrow> v = v') \<longrightarrow>
            (\<exists>k v v'. mapping_of cur k = Some v \<and> map_of new_tags k = Some v' \<and> v \<noteq> v' \<and>
                 Tags_enter new_tags s = (Inl (ValueError (conflict_message k v v')), s1)))"
proof (intro conjI impI)
  assume "\<forall>k v v'. mapping_of cur k = Some v \<and> map_of new_tags k = Some v' \<longrightarrow> v = v'"
  from merge_tags_ok[OF assms(2) this] obtain m where
    "merge_tags cur new_tags = Inr m" "map_of m = mapping_of cur ++ map_of new_tags"
    "wf_dict new_tags \<longrightarrow> wf_dict m" by blast
  then show "\<exists>m. Tags_enter new_tags s = (Inr cur, s1\<lparr>tags := Some (Some m)\<rparr>) \<and>
                 map_of m = mapping_of cur ++ map_of new_tags \<and>
                 (wf_dict new_tags \<longrightarrow> wf_dict m)"
    using assms(1) by (intro exI[of _ m]) (simp add: Tags_enter_def)
next
  assume "\<not> (\<forall>k v v'. mapping_of cur k = Some v \<and> map_of new_tags k = Some v' \<longrightarrow> v = v')"
  from merge_tags_conflict[OF assms(2) this] obtain k v v' where
    "mapping_of cur k = Some v" "map_of new_tags k = Some v'" "v \<noteq> v'"
    "merge_tags cur new_tags = Inl (ValueError (conflict_message k v v'))" by blast
  then show "\<exists>k v v'. mapping_of cur k = Some v \<and> map_of new_tags k = Some v' \<and> v \<noteq> v' \<and>
                 Tags_enter new_tags s = (Inl (ValueError (conflict_message k v v')), s1)"
    using assms(1) by (auto simp: Tags_enter_def)
qed

theorem Tags_enter_merges_or_conflicts_witness:
  "Tags_enter [(''key2'', ''value2'')]
      \<lparr>tags = Some (Some [(''key1'', ''value1'')]), namescope = None, devicescope = None, heap = []\<rparr> =
     (Inr (Some [(''key1'', ''value1'')]),
      \<lparr>tags = Some (Some [(''key2'', ''value2''), (''key1'', ''value1'')]), namescope = None,
         devicescope = None, heap = []\<rparr>)
   \<and> map_of [(''key2'', ''value2''), (''key1'', ''value1'')] =
       mapping_of (Some [(''key1'', ''value1'')]) ++ map_of [(''key2'', ''value2'')]
   \<and> Tags_enter [(''key1'', ''value2'')]
      \<lparr>tags = Some (Some [(''key1'', ''value1'')]), namescope = None, devicescope = None, heap = []\<rparr> =
     (Inl (ValueError
        ''Tags conflict detected: key key1 hasold value value1, then gets a new value value2''),
      \<lparr>tags = Some (Some [(''key1'', ''value1'')]), namescope = None, devicescope = None, heap = []\<rparr>)"
proof -
  let ?old = "[(''key1'', ''value1'')]"
  let ?s = "\<lparr>tags = Some (Some ?old), namescope = None, devicescope = None, heap = []\<rparr>"
  have c: "CurrentTags ?s = (Some ?old, ?s)"
    by (simp add: CurrentTags_def)
  have w: "case Some ?old of None \<Rightarrow> True | Some old \<Rightarrow> wf_dict old"
    by (simp add: wf_dict_def)
  have agree: "\<forall>k v v'. mapping_of (Some ?old) k = Some v \<and>
      map_of [(''key2'', ''value2'')] k = Some v' \<longrightarrow> v = v'"
    by (simp add: mapping_of_def)
  have clash: "\<not> (\<forall>k v v'. mapping_of (Some ?old) k = Some v \<and>
      map_of [(''key1'', ''value2'')] k = Some v' \<longrightarrow> v = v')"
    by (simp add: mapping_of_def)
  from Tags_enter_merges_or_conflicts[OF c w, of "[(''key2'', ''value2'')]"] agree
  obtain m where m: "Tags_enter [(''key2'', ''value2'')] ?s = (Inr (Some ?old), ?s\<lparr>tags := Some (Some m)\<rparr>)"
    "map_of m = mapping_of (Some ?old) ++ map_of [(''key2'', ''value2'')]"
    by blast
  have "Tags_enter [(''key2'', ''value2'')] ?s =
      (Inr (Some ?old), ?s\<lparr>tags := Some (Some [(''key2'', ''value2''), (''key1'', ''value1'')])\<rparr>)"
    by (simp add: Tags_enter_def CurrentTags_def merge_tags_def)
  with m(1) have meq: "m = [(''key2'', ''value2''), (''key1'', ''value1'')]" by simp
  from Tags_enter_merges_or_conflicts[OF c w, of "[(''key1'', ''value2'')]"] clash
  obtain k v v' where "Tags_enter [(''key1'', ''value2'')] ?s =
      (Inl (ValueError (conflict_message k v v')), ?s)"
    by blast
  moreover have "Tags_enter [(''key1'', ''value2'')] ?s =
      (Inl (ValueError (conflict_message ''key1'' ''value1'' ''value2'')), ?s)"
    by (simp add: Tags_enter_def CurrentTags_def merge_tags_def)
  ultimately show ?thesis using m meq by (simp add: conflict_message_def)
qed

text \<open>
  Claim C5: when entering \<^verbatim>\<open>Tags\<close> raises, the error is the conflict error, the
  block is not run, and the state after the failed \<^verbatim>\<open>with\<close> statement is the state
  before it: the merged dictionary is never installed and the current tags are what they
  were.
\<close>

theorem Tags_conflict_leaves_tags_unchanged:
  assumes "Tags_enter new_tags s = (Inl e, s')"
  shows "s' = s \<and> Tags new_tags block s = (Some e, s) \<and>
         fst (CurrentTags s') = fst (CurrentTags s) \<and>
         (\<exists>k v v'. v \<noteq> v' \<and> e = ValueError (conflict_message k v v'))"
proof -
  obtain cur s1 where c: "CurrentTags s = (cur, s1)" by (cases "CurrentTags s")
  from assms c have m: "merge_tags cur new_tags = Inl e" and s1: "s' = s1"
    by (auto simp: Tags_enter_def split: sum.splits)
  from merge_tags_Inl[OF m] have ne: "cur \<noteq> None"
    and ex: "\<exists>k v v'. v \<noteq> v' \<and> e = ValueError (conflict_message k v v')" by auto
  from c ne have "s1 = s" by (auto simp: CurrentTags_def split: option.splits)
  with s1 have eq: "s' = s" by simp
  moreover have "Tags new_tags block s = (Some e, s)"
    using assms eq by (simp add: Tags_def with_contextmanager_def)
  ultimately show ?thesis using ex by simp
qed

theorem Tags_conflict_leaves_tags_unchanged_witness:
  "Tags_enter [(''key1'', ''value2'')]
      \<lparr>tags = Some (Some [(''key1'', ''value1'')]), namescope = None, devicescope = None, heap = []\<rparr> =
     (Inl (ValueError (conflict_message ''key1'' ''value1'' ''value2'')),
      \<lparr>tags = Some (Some [(''key1'', ''value1'')]), namescope = None, devicescope = None, heap = []\<rparr>)
   \<and> Tags [(''key1'', ''value2'')] pass
      \<lparr>tags = Some (Some [(''key1'', ''value1'')]), namescope = None, devicescope = None, heap = []\<rparr> =
     (Some (ValueError (conflict_message ''key1'' ''value1'' ''value2'')),
      \<lparr>tags = Some (Some [(''key1'', ''value1'')]), namescope = None, devicescope = None, heap = []\<rparr>)
   \<and> fst (CurrentTags
      \<lparr>tags = Some (Some [(''key1'', ''value1'')]), namescope = None, devicescope = None, heap = []\<rparr>) =
     Some [(''key1'', ''value1'')]"
proof -
  let ?s = "\<lparr>tags = Some (Some [(''key1'', ''value1'')]), namescope = None, devicescope = None, heap = []\<rparr>"
  have e: "Tags_enter [(''key1'', ''value2'')] ?s =
     (Inl (ValueError (conflict_message ''key1'' ''value1'' ''value2'')), ?s)"
    by (simp add: Tags_enter_def CurrentTags_def merge_tags_def)
  from Tags_conflict_leaves_tags_unchanged[OF e, of pass] e show ?thesis
    by (simp add: CurrentTags_def)
qed

subsection \<open>Entering DeviceScope\<close>

lemma DeviceScope_enter_fails_iff:
  "(\<exists>e. fst (DeviceScope_enter scope nn s) = Inl e) \<longleftrightarrow> (scope = None \<and> \<not> truthy_str nn)"
  by (cases scope; cases "truthy_str nn")
     (simp_all add: DeviceScope_enter_def Let_def truthy_ref_def split: prod.splits)

lemma DeviceScope_enter_result:
  assumes sc: "case scope of None \<Rightarrow> True | Some r \<Rightarrow> r < length (heap s)"
      and old: "case fst (CurrentDeviceScope s) of None \<Rightarrow> True | Some e \<Rightarrow> e < length (heap s)"
      and ok: "scope \<noteq> None \<or> truthy_str nn"
  shows "DeviceScope_enter scope nn s =
           (Inr (fst (CurrentDeviceScope s), length (heap s)),
            s\<lparr>heap := heap s @ [installed (heap s) (fst (CurrentDeviceScope s)) scope nn],
              devicescope := Some (Some (length (heap s)))\<rparr>)"
proof -
  let ?n = "length (heap s)"
  let ?base = "case scope of None \<Rightarrow> DeviceOption_new | Some r \<Rightarrow> heap s ! r"
  let ?named = "if truthy_str nn then ?base\<lparr>node_name := nn\<rparr> else ?base"
  let ?s0 = "s\<lparr>heap := heap s @ [DeviceOption_new]\<rparr>"
  let ?s1 = "s\<lparr>heap := heap s @ [?base]\<rparr>"
  let ?s2 = "s\<lparr>heap := heap s @ [?named]\<rparr>"
  have step1: "(if truthy_ref scope
               then (case scope of Some r \<Rightarrow> Inr (CopyFrom ?n r ?s0) | None \<Rightarrow> Inr ?s0)
               else if truthy_str nn then Inr ?s0
               else Inl (AssertionError
                      ''At least one argument should be non-null in DeviceScope'')) = Inr ?s1"
    using sc ok by (cases scope) (simp_all add: truthy_ref_def CopyFrom_def nth_append)
  have step2: "(case nn of None \<Rightarrow> ?s1
                | Some n \<Rightarrow> if truthy_str (Some n) then set_node_name ?n n ?s1 else ?s1) = ?s2"
    by (cases nn) (simp_all add: truthy_str_def set_node_name_def)
  have enter: "DeviceScope_enter scope nn s =
     (case CurrentDeviceScope ?s2 of
        (old_scope, s3) \<Rightarrow>
          (Inr (old_scope, ?n),
           (case old_scope of
              None \<Rightarrow> s3
            | Some r \<Rightarrow> if truthy_ref (Some r) \<and> HasField_node_name (heap s3 ! r) \<and>
                            \<not> HasField_node_name (heap s3 ! ?n)
                         then set_node_name ?n (get_node_name (heap s3 ! r)) s3 else s3)
           \<lparr>devicescope := Some (Some ?n)\<rparr>))"
    unfolding DeviceScope_enter_def Let_def step1 sum.case step2 ..
  show ?thesis
  proof (cases "devicescope s")
    case None
    then show ?thesis
      by (simp add: enter CurrentDeviceScope_def installed_def Let_def)
  next
    case (Some cur)
    show ?thesis
    proof (cases cur)
      case None
      with Some show ?thesis
        by (simp add: enter CurrentDeviceScope_def installed_def Let_def)
    next
      case (Some e)
      with \<open>devicescope s = Some cur\<close> old have e: "e < length (heap s)"
        by (simp add: CurrentDeviceScope_def)
      from Some \<open>devicescope s = Some cur\<close> e show ?thesis
        by (simp add: enter CurrentDeviceScope_def installed_def Let_def truthy_ref_def
              HasField_node_name_def get_node_name_def set_node_name_def nth_append
              split: option.splits)
    qed
  qed
qed

lemma DeviceScope_enter_heap:
  "DeviceScope_enter scope nn s = (res, s1) \<Longrightarrow> \<exists>d. heap s1 = heap s @ [d]"
  by (auto simp: DeviceScope_enter_def CurrentDeviceScope_def Let_def CopyFrom_def
        set_node_name_def split: option.splits if_splits sum.splits)

lemma DeviceScope_finally_heap: "heap (snd (DeviceScope_finally k s)) = heap s"
  by (cases k) (simp add: DeviceScope_finally_def split: option.splits)

text \<open>
  Claim C2, as the code has it: entering \<^verbatim>\<open>DeviceScope\<close> raises exactly when no
  descriptor is given and the node name is \<^verbatim>\<open>None\<close> or the empty string; the error
  is then the assertion error of line 114 and the block is not run. With a descriptor the
  entry never raises, whatever the descriptor's fields and the node name.
\<close>

theorem DeviceScope_argument_error:
  "(isl (fst (DeviceScope_enter scope nn s)) \<longleftrightarrow> scope = None \<and> (nn = None \<or> nn = Some ''''))
   \<and> (isl (fst (DeviceScope_enter scope nn s)) \<longrightarrow>
        fst (DeviceScope_enter scope nn s) =
          Inl (AssertionError ''At least one argument should be non-null in DeviceScope'') \<and>
        DeviceScope scope nn block s =
          (Some (AssertionError ''At least one argument should be non-null in DeviceScope''),
           s\<lparr>heap := heap s @ [DeviceOption_new]\<rparr>))
   \<and> (scope \<noteq> None \<longrightarrow> \<not> isl (fst (DeviceScope_enter scope nn s)))"
proof -
  have t: "truthy_str nn \<longleftrightarrow> \<not> (nn = None \<or> nn = Some '''')"
    by (cases nn) (simp_all add: truthy_str_def)
  show ?thesis
  proof (cases "scope = None \<and> \<not> truthy_str nn")
    case True
    then have "DeviceScope_enter scope nn s =
        (Inl (AssertionError ''At least one argument should be non-null in DeviceScope''),
         s\<lparr>heap := heap s @ [DeviceOption_new]\<rparr>)"
      by (simp add: DeviceScope_enter_def Let_def truthy_ref_def)
    with True t show ?thesis by (simp add: DeviceScope_def with_contextmanager_def)
  next
    case False
    then have "\<not> (\<exists>e. fst (DeviceScope_enter scope nn s) = Inl e)"
      by (simp add: DeviceScope_enter_fails_iff)
    then have "\<not> isl (fst (DeviceScope_enter scope nn s))"
      by (cases "fst (DeviceScope_enter scope nn s)") simp_all
    with False t show ?thesis by auto
  qed
qed

text \<open>
  The claim as written counts every supplied node name. The empty string is a node name
  that was supplied, and the entry fails on it when no descriptor comes with it.
\<close>

theorem DeviceScope_argument_error_counterexample:
  "\<not> (isl (fst (DeviceScope_enter None (Some '''') (fresh_thread []))) \<longleftrightarrow>
       (None :: ref option) = None \<and> Some '''' = (None :: string option))"
  by (simp add: DeviceScope_enter_def Let_def truthy_ref_def truthy_str_def)

theorem DeviceScope_argument_error_witness:
  "isl (fst (DeviceScope_enter None None (fresh_thread [])))
   \<and> isl (fst (DeviceScope_enter None (Some '''') (fresh_thread [])))
   \<and> DeviceScope None (Some '''') pass (fresh_thread []) =
       (Some (AssertionError ''At least one argument should be non-null in DeviceScope''),
        \<lparr>tags = None, namescope = None, devicescope = None, heap = [DeviceOption_new]\<rparr>)
   \<and> \<not> isl (fst (DeviceScope_enter None (Some ''n'') (fresh_thread [])))
   \<and> \<not> isl (fst (DeviceScope_enter (Some 0) None (fresh_thread [DeviceOption_new])))"
proof -
  have 1: "isl (fst (DeviceScope_enter None None (fresh_thread [])))"
    using DeviceScope_argument_error[of None None "fresh_thread []" pass, THEN conjunct1]
    by simp
  have 2: "isl (fst (DeviceScope_enter None (Some '''') (fresh_thread [])))"
    using DeviceScope_argument_error[of None "Some ''''" "fresh_thread []" pass, THEN conjunct1]
    by simp
  have 3: "DeviceScope None (Some '''') pass (fresh_thread []) =
       (Some (AssertionError ''At least one argument should be non-null in DeviceScope''),
        \<lparr>tags = None, namescope = None, devicescope = None, heap = [DeviceOption_new]\<rparr>)"
    using DeviceScope_argument_error[of None "Some ''''" "fresh_thread []" pass,
            THEN conjunct2, THEN conjunct1] 2
    by (simp add: fresh_thread_def)
  have 4: "\<not> isl (fst (DeviceScope_enter None (Some ''n'') (fresh_thread [])))"
    using DeviceScope_argument_error[of None "Some ''n''" "fresh_thread []" pass, THEN conjunct1]
    by simp
  have 5: "\<not> isl (fst (DeviceScope_enter (Some 0) None (fresh_thread [DeviceOption_new])))"
    using DeviceScope_argument_error[of "Some 0" None "fresh_thread [DeviceOption_new]" pass,
            THEN conjunct2, THEN conjunct2]
    by simp
  from 1 2 3 4 5 show ?thesis by blast
qed

text \<open>
  Claim C3, as the code has it: inside an enclosing device scope whose descriptor has the
  node identifier \<open>N\<close>, a successful entry installs a new descriptor whose node identifier
  is the \<^verbatim>\<open>node_name\<close> argument when that is a non-empty string; otherwise the one
  carried by the supplied descriptor when it has one (even an empty one); otherwise \<open>N\<close>.
  Its other fields are those of the supplied descriptor.
\<close>

theorem DeviceScope_node_name:
  assumes "devicescope s = Some (Some e)" and "e < length (heap s)"
      and "node_name (heap s ! e) = Some N"
      and "case scope of None \<Rightarrow> True | Some r \<Rightarrow> r < length (heap s)"
      and "scope \<noteq> None \<or> truthy_str nn"
  shows "\<exists>d. DeviceScope_enter scope nn s =
               (Inr (Some e, length (heap s)),
                s\<lparr>heap := heap s @ [d], devicescope := Some (Some (length (heap s)))\<rparr>)
           \<and> node_name d =
               (if truthy_str nn then nn
                else case scope of
                       None \<Rightarrow> Some N
                     | Some r \<Rightarrow> (case node_name (heap s ! r) of None \<Rightarrow> Some N | Some m \<Rightarrow> Some m))
           \<and> other_fields d = (case scope of None \<Rightarrow> 0 | Some r \<Rightarrow> other_fields (heap s ! r))"
proof -
  have c: "fst (CurrentDeviceScope s) = Some e"
    using assms(1) by (simp add: CurrentDeviceScope_def)
  have old: "case fst (CurrentDeviceScope s) of None \<Rightarrow> True | Some e \<Rightarrow> e < length (heap s)"
    using c assms(2) by simp
  let ?d = "installed (heap s) (Some e) scope nn"
  have "DeviceScope_enter scope nn s =
               (Inr (Some e, length (heap s)),
                s\<lparr>heap := heap s @ [?d], devicescope := Some (Some (length (heap s)))\<rparr>)"
    using DeviceScope_enter_result[OF assms(4) old assms(5)] c by simp
  moreover have "node_name ?d =
               (if truthy_str nn then nn
                else case scope of
                       None \<Rightarrow> Some N
                     | Some r \<Rightarrow> (case node_name (heap s ! r) of None \<Rightarrow> Some N | Some m \<Rightarrow> Some m))"
    using assms(3)
    by (cases scope; cases nn)
       (auto simp: installed_def Let_def truthy_str_def DeviceOption_new_def split: option.splits)
  moreover have "other_fields ?d = (case scope of None \<Rightarrow> 0 | Some r \<Rightarrow> other_fields (heap s ! r))"
    by (cases scope) (simp_all add: installed_def Let_def DeviceOption_new_def)
  ultimately show ?thesis by blast
qed

text \<open>
  The claim as written lets every node name given through the argument win. The empty
  string given as \<^verbatim>\<open>node_name\<close> does not: the installed descriptor carries \<open>N\<close>.
\<close>

theorem DeviceScope_node_name_counterexample:
  "DeviceScope_enter (Some 1) (Some '''')
     \<lparr>tags = None, namescope = None, devicescope = Some (Some 0),
        heap = [\<lparr>node_name = Some ''N'', other_fields = 1\<rparr>, \<lparr>node_name = None, other_fields = 9\<rparr>]\<rparr> =
     (Inr (Some 0, 2),
      \<lparr>tags = None, namescope = None, devicescope = Some (Some 2),
         heap = [\<lparr>node_name = Some ''N'', other_fields = 1\<rparr>, \<lparr>node_name = None, other_fields = 9\<rparr>,
                 \<lparr>node_name = Some ''N'', other_fields = 9\<rparr>]\<rparr>)
   \<and> Some ''N'' \<noteq> Some ''''"
  by (simp add: DeviceScope_enter_def Let_def truthy_ref_def truthy_str_def CopyFrom_def
        CurrentDeviceScope_def HasField_node_name_def get_node_name_def set_node_name_def
        DeviceOption_new_def)

theorem DeviceScope_node_name_witness:
  "DeviceScope_enter (Some 1) None
     \<lparr>tags = None, namescope = None, devicescope = Some (Some 0),
        heap = [\<lparr>node_name = Some ''N'', other_fields = 1\<rparr>, \<lparr>node_name = None, other_fields = 9\<rparr>]\<rparr> =
     (Inr (Some 0, 2),
      \<lparr>tags = None, namescope = None, devicescope = Some (Some 2),
         heap = [\<lparr>node_name = Some ''N'', other_fields = 1\<rparr>, \<lparr>node_name = None, other_fields = 9\<rparr>,
                 \<lparr>node_name = Some ''N'', other_fields = 9\<rparr>]\<rparr>)
   \<and> DeviceScope_enter (Some 1) (Some ''M'')
     \<lparr>tags = None, namescope = None, devicescope = Some (Some 0),
        heap = [\<lparr>node_name = Some ''N'', other_fields = 1\<rparr>, \<lparr>node_name = None, other_fields = 9\<rparr>]\<rparr> =
     (Inr (Some 0, 2),
      \<lparr>tags = None, namescope = None, devicescope = Some (Some 2),
         heap = [\<lparr>node_name = Some ''N'', other_fields = 1\<rparr>, \<lparr>node_name = None, other_fields = 9\<rparr>,
                 \<lparr>node_name = Some ''M'', other_fields = 9\<rparr>]\<rparr>)"
proof -
  let ?h = "[\<lparr>node_name = Some ''N'', other_fields = 1\<rparr>, \<lparr>node_name = None, other_fields = 9\<rparr>]"
  let ?s = "\<lparr>tags = None, namescope = None, devicescope = Some (Some 0), heap = ?h\<rparr>"
  have a1: "devicescope ?s = Some (Some 0)" by simp
  have a2: "0 < length (heap ?s)" by simp
  have a3: "node_name (heap ?s ! 0) = Some ''N''" by simp
  have a4: "case Some 1 of None \<Rightarrow> True | Some r \<Rightarrow> r < length (heap ?s)" by simp
  have a5: "Some (1::nat) \<noteq> None \<or> truthy_str nn" for nn by simp
  from DeviceScope_node_name[OF a1 a2 a3 a4 a5, of None] obtain d where
    d: "DeviceScope_enter (Some 1) None ?s =
          (Inr (Some 0, 2), ?s\<lparr>heap := ?h @ [d], devicescope := Some (Some 2)\<rparr>)"
       "node_name d = Some ''N''" "other_fields d = 9"
    by (auto simp: truthy_str_def)
  from DeviceScope_node_name[OF a1 a2 a3 a4 a5, of "Some ''M''"] obtain d' where
    d': "DeviceScope_enter (Some 1) (Some ''M'') ?s =
          (Inr (Some 0, 2), ?s\<lparr>heap := ?h @ [d'], devicescope := Some (Some 2)\<rparr>)"
       "node_name d' = Some ''M''" "other_fields d' = 9"
    by (auto simp: truthy_str_def)
  have "d = \<lparr>node_name = Some ''N'', other_fields = 9\<rparr>" using d(2,3) by (cases d) simp
  moreover have "d' = \<lparr>node_name = Some ''M'', other_fields = 9\<rparr>" using d'(2,3) by (cases d') simp
  ultimately show ?thesis using d(1) d'(1) by simp
qed

text \<open>
  Claim C10: \<^verbatim>\<open>DeviceScope\<close> works on a new object. Whatever the arguments, the
  entry only appends one object to the store, so every object that existed before, the
  caller's descriptor and the enclosing scope's among them, is unchanged; on success the
  attribute refers to the new object, which is not the caller's. The \<^verbatim>\<open>finally\<close>
  clause does not touch the store. So after the \<^verbatim>\<open>with\<close> statement the caller's
  descriptor is what it was, provided the block itself left it alone.
\<close>

theorem DeviceScope_leaves_argument_unchanged:
  "(DeviceScope_enter scope nn s = (res, s') \<longrightarrow>
      (\<exists>d. heap s' = heap s @ [d]) \<and> (\<forall>i < length (heap s). heap s' ! i = heap s ! i))
   \<and> (DeviceScope_enter (Some r) nn s = (Inr (old, new), s') \<and> r < length (heap s) \<longrightarrow>
      new \<noteq> r \<and> devicescope s' = Some (Some new) \<and> heap s' ! r = heap s ! r)
   \<and> heap (snd (DeviceScope_finally k s'')) = heap s''
   \<and> (DeviceScope_enter (Some r) nn s = (Inr k', s') \<and> r < length (heap s) \<and>
      block s' = (out, s'') \<and> heap s'' ! r = heap s' ! r \<longrightarrow>
      heap (snd (DeviceScope (Some r) nn block s)) ! r = heap s ! r)"
proof (intro conjI impI)
  assume e: "DeviceScope_enter scope nn s = (res, s')"
  from DeviceScope_enter_heap[OF e] obtain d where d: "heap s' = heap s @ [d]" ..
  then show "\<exists>d. heap s' = heap s @ [d]" ..
  from d show "\<forall>i < length (heap s). heap s' ! i = heap s ! i" by (simp add: nth_append)
next
  assume a: "DeviceScope_enter (Some r) nn s = (Inr (old, new), s') \<and> r < length (heap s)"
  from DeviceScope_enter_heap a obtain d where d: "heap s' = heap s @ [d]" by blast
  from DeviceScope_enter_slot a have k: "new = length (heap s)"
    and sl: "devicescope s' = Some (Some (length (heap s)))" by blast+
  from k a show "new \<noteq> r" by simp
  from k sl show "devicescope s' = Some (Some new)" by simp
  from d a show "heap s' ! r = heap s ! r" by (simp add: nth_append)
next
  show "heap (snd (DeviceScope_finally k s'')) = heap s''" by (rule DeviceScope_finally_heap)
next
  assume a: "DeviceScope_enter (Some r) nn s = (Inr k', s') \<and> r < length (heap s) \<and>
      block s' = (out, s'') \<and> heap s'' ! r = heap s' ! r"
  from DeviceScope_enter_heap a obtain d where d: "heap s' = heap s @ [d]" by blast
  have "DeviceScope (Some r) nn block s = (case DeviceScope_finally k' s'' of
           (FallThrough, s3) \<Rightarrow> (out, s3) | (Return, s3) \<Rightarrow> (None, s3)
         | (Raise e, s3) \<Rightarrow> (Some e, s3))"
    using a by (simp add: DeviceScope_def with_contextmanager_def)
  then have "heap (snd (DeviceScope (Some r) nn block s)) = heap (snd (DeviceScope_finally k' s''))"
    by (simp split: prod.splits completion.splits)
  then show "heap (snd (DeviceScope (Some r) nn block s)) ! r = heap s ! r"
    using a d by (simp add: DeviceScope_finally_heap nth_append)
qed

theorem DeviceScope_leaves_argument_unchanged_witness:
  "DeviceScope_enter (Some 0) (Some ''n1'') (fresh_thread [\<lparr>node_name = None, other_fields = 9\<rparr>]) =
     (Inr (None, 1),
      \<lparr>tags = None, namescope = None, devicescope = Some (Some 1),
         heap = [\<lparr>node_name = None, other_fields = 9\<rparr>, \<lparr>node_name = Some ''n1'', other_fields = 9\<rparr>]\<rparr>)
   \<and> heap (snd (DeviceScope_enter (Some 0) (Some ''n1'')
         (fresh_thread [\<lparr>node_name = None, other_fields = 9\<rparr>]))) ! 0 =
       \<lparr>node_name = None, other_fields = 9\<rparr>
   \<and> heap (snd (DeviceScope (Some 0) (Some ''n1'') pass
         (fresh_thread [\<lparr>node_name = None, other_fields = 9\<rparr>]))) ! 0 =
       \<lparr>node_name = None, other_fields = 9\<rparr>"
proof -
  let ?d = "\<lparr>node_name = None, other_fields = 9\<rparr>"
  let ?s = "fresh_thread [?d]"
  let ?s1 = "\<lparr>tags = None, namescope = None, devicescope = Some (Some 1),
         heap = [?d, \<lparr>node_name = Some ''n1'', other_fields = 9\<rparr>]\<rparr>"
  have e: "DeviceScope_enter (Some 0) (Some ''n1'') ?s = (Inr (None, 1), ?s1)"
    by (simp add: DeviceScope_enter_def Let_def truthy_ref_def truthy_str_def CopyFrom_def
          CurrentDeviceScope_def set_node_name_def DeviceOption_new_def fresh_thread_def)
  have r: "0 < length (heap ?s)" by (simp add: fresh_thread_def)
  have b: "pass ?s1 = (None, ?s1)" by (simp add: pass_def)
  note t = DeviceScope_leaves_argument_unchanged
             [where scope = "Some 0" and nn = "Some ''n1''" and s = ?s and r = 0 and s' = ?s1
                and res = "Inr (None, 1)" and old = None and new = 1 and k' = "(None, 1)"
                and block = pass and out = None and s'' = ?s1]
  from t e r have 1: "heap ?s1 ! 0 = heap ?s ! 0" by blast
  from t e r b have 2: "heap (snd (DeviceScope (Some 0) (Some ''n1'') pass ?s)) ! 0 = heap ?s ! 0"
    by blast
  from e 1 2 show ?thesis by (simp add: fresh_thread_def)
qed

subsection \<open>Composition of name scopes\<close>

text \<open>
  Claim C6: with current prefix \<open>P\<close>, entering \<^verbatim>\<open>NameScope\<close> with a non-empty prefix
  \<open>p\<close> makes the current prefix \<open>P + p + "/"\<close> without \<^verbatim>\<open>reset\<close> and \<open>p + "/"\<close>
  with it. When the block leaves the attribute as it found it, the \<^verbatim>\<open>with\<close> statement
  ends as the block did and the current prefix is again what it was before the entry.
  On a new thread, \<^verbatim>\<open>NameScope("a")\<close> then \<^verbatim>\<open>NameScope("b")\<close> gives \<open>"a/b/"\<close>, and
  after both exits the prefix is empty.
\<close>

theorem NameScope_composition:
  "(p \<noteq> [] \<longrightarrow>
      fst (CurrentNameScope (snd (NameScope_enter (Some p) False s))) =
        fst (CurrentNameScope s) @ p @ ''/'')
   \<and> (p \<noteq> [] \<longrightarrow>
      fst (CurrentNameScope (snd (NameScope_enter (Some p) True s))) = p @ ''/'')
   \<and> (block (snd (NameScope_enter prefix reset s)) = (out, s') \<and>
      namescope s' = namescope (snd (NameScope_enter prefix reset s)) \<longrightarrow>
      fst (NameScope prefix reset block s) = out \<and>
      fst (CurrentNameScope (snd (NameScope prefix reset block s))) = fst (CurrentNameScope s))
   \<and> fst (CurrentNameScope (snd (NameScope_enter (Some ''b'') False
        (snd (NameScope_enter (Some ''a'') False (fresh_thread h)))))) = ''a/b/''
   \<and> NameScope (Some ''a'') False (NameScope (Some ''b'') False pass) (fresh_thread h) =
       (None, (fresh_thread h)\<lparr>namescope := Some ''''\<rparr>)
   \<and> fst (CurrentNameScope (snd
        (NameScope (Some ''a'') False (NameScope (Some ''b'') False pass) (fresh_thread h)))) = ''''"
proof (intro conjI impI)
  assume "p \<noteq> []"
  then show "fst (CurrentNameScope (snd (NameScope_enter (Some p) False s))) =
        fst (CurrentNameScope s) @ p @ ''/''"
    by (simp add: NameScope_enter_ok CurrentNameScope_def)
next
  assume "p \<noteq> []"
  then show "fst (CurrentNameScope (snd (NameScope_enter (Some p) True s))) = p @ ''/''"
    by (simp add: NameScope_enter_ok CurrentNameScope_def)
next
  assume a: "block (snd (NameScope_enter prefix reset s)) = (out, s') \<and>
      namescope s' = namescope (snd (NameScope_enter prefix reset s))"
  obtain k s1 where e: "NameScope_enter prefix reset s = (Inr k, s1)"
    by (simp add: NameScope_enter_ok)
  from NameScope_restores[OF e, of block out s'] a e
  have r: "NameScope prefix reset block s =
             (out, s'\<lparr>namescope := Some (fst (CurrentNameScope s))\<rparr>)" by simp
  show "fst (NameScope prefix reset block s) = out" by (simp add: r)
  show "fst (CurrentNameScope (snd (NameScope prefix reset block s))) = fst (CurrentNameScope s)"
    by (simp add: r CurrentNameScope_def)
next
  show "fst (CurrentNameScope (snd (NameScope_enter (Some ''b'') False
        (snd (NameScope_enter (Some ''a'') False (fresh_thread h)))))) = ''a/b/''"
    by (simp add: NameScope_enter_ok CurrentNameScope_def fresh_thread_def)
next
  show n: "NameScope (Some ''a'') False (NameScope (Some ''b'') False pass) (fresh_thread h) =
       (None, (fresh_thread h)\<lparr>namescope := Some ''''\<rparr>)"
    by (simp add: NameScope_def with_contextmanager_def NameScope_enter_ok NameScope_finally_def
          CurrentNameScope_def fresh_thread_def pass_def endswith_def)
  show "fst (CurrentNameScope (snd
        (NameScope (Some ''a'') False (NameScope (Some ''b'') False pass) (fresh_thread h)))) = ''''"
    by (simp add: n CurrentNameScope_def)
qed

theorem NameScope_composition_witness:
  "fst (CurrentNameScope (snd (NameScope_enter (Some ''b'') False
      \<lparr>tags = None, namescope = Some ''a/'', devicescope = None, heap = []\<rparr>))) = ''a/b/''
   \<and> fst (CurrentNameScope (snd (NameScope_enter (Some ''b'') True
      \<lparr>tags = None, namescope = Some ''a/'', devicescope = None, heap = []\<rparr>))) = ''b/''
   \<and> fst (NameScope (Some ''b'') True (raise (Exception ''boom''))
      \<lparr>tags = None, namescope = Some ''a/'', devicescope = None, heap = []\<rparr>) =
       Some (Exception ''boom'')
   \<and> fst (CurrentNameScope (snd (NameScope (Some ''b'') True (raise (Exception ''boom''))
      \<lparr>tags = None, namescope = Some ''a/'', devicescope = None, heap = []\<rparr>))) = ''a/''"
proof -
  let ?s = "\<lparr>tags = None, namescope = Some ''a/'', devicescope = None, heap = []\<rparr>"
  let ?s1 = "\<lparr>tags = None, namescope = Some ''b/'', devicescope = None, heap = []\<rparr>"
  have ne: "''b'' \<noteq> []" by simp
  have c: "fst (CurrentNameScope ?s) = ''a/''" by (simp add: CurrentNameScope_def)
  have e: "snd (NameScope_enter (Some ''b'') True ?s) = ?s1"
    by (simp add: NameScope_enter_ok)
  have b: "raise (Exception ''boom'') (snd (NameScope_enter (Some ''b'') True ?s)) =
             (Some (Exception ''boom''), ?s1) \<and>
           namescope ?s1 = namescope (snd (NameScope_enter (Some ''b'') True ?s))"
    by (simp add: e raise_def)
  note t = NameScope_composition[where p = "''b''" and s = ?s and prefix = "Some ''b''"
             and reset = True and block = "raise (Exception ''boom'')"
             and out = "Some (Exception ''boom'')" and s' = ?s1 and h = "[]"]
  from t ne c have 1: "fst (CurrentNameScope (snd (NameScope_enter (Some ''b'') False ?s))) = ''a/b/''"
    by simp
  from t ne have 2: "fst (CurrentNameScope (snd (NameScope_enter (Some ''b'') True ?s))) = ''b/''"
    by simp
  from t b c have 3: "fst (NameScope (Some ''b'') True (raise (Exception ''boom'')) ?s) =
       Some (Exception ''boom'') \<and>
     fst (CurrentNameScope (snd (NameScope (Some ''b'') True (raise (Exception ''boom'')) ?s))) = ''a/''"
    by simp
  from 1 2 3 show ?thesis by blast
qed

subsection \<open>A failed consistency assertion\<close>

text \<open>
  Claim C9: when the block ends with the name prefix not ending in the guard's segment,
  or with the device attribute not equal to the guard's descriptor, the \<^verbatim>\<open>finally\<close>
  clause raises the assertion error before its assignment: the \<^verbatim>\<open>with\<close> statement
  raises that error (in place of whatever the block raised) and the state is the one the
  block left, the old value not restored.
\<close>

theorem corruption_assertion_skips_restore:
  "(NameScope_enter prefix reset s = (Inr (old, seg), s') \<and> block s' = (out, s'') \<and>
      namescope s'' = Some cur \<and> \<not> endswith cur seg \<longrightarrow>
      NameScope_finally (old, seg) s'' =
        (Raise (AssertionError
           ''The namescope variable is changed from outside NameScope() calls.''), s'') \<and>
      NameScope prefix reset block s =
        (Some (AssertionError
           ''The namescope variable is changed from outside NameScope() calls.''), s''))
   \<and> (DeviceScope_enter scope nn s = (Inr (oldd, new), sd') \<and> block sd' = (out, sd'') \<and>
      devicescope sd'' = Some curd \<and> \<not> DeviceOption_eq sd'' curd new \<longrightarrow>
      DeviceScope_finally (oldd, new) sd'' =
        (Raise (AssertionError
           ''The device scope is changed from outside DeviceScope() calls.''), sd'') \<and>
      DeviceScope scope nn block s =
        (Some (AssertionError
           ''The device scope is changed from outside DeviceScope() calls.''), sd''))"
  by (simp add: NameScope_def DeviceScope_def with_contextmanager_def NameScope_finally_def
        DeviceScope_finally_def)

theorem corruption_assertion_skips_restore_witness:
  "NameScope (Some ''a'') False (\<lambda>s. (None, s\<lparr>namescope := Some ''x''\<rparr>)) (fresh_thread []) =
     (Some (AssertionError ''The namescope variable is changed from outside NameScope() calls.''),
      \<lparr>tags = None, namescope = Some ''x'', devicescope = None, heap = []\<rparr>)
   \<and> DeviceScope (Some 0) None (\<lambda>s. (None, s\<lparr>devicescope := Some None\<rparr>))
       (fresh_thread [\<lparr>node_name = None, other_fields = 9\<rparr>]) =
     (Some (AssertionError ''The device scope is changed from outside DeviceScope() calls.''),
      \<lparr>tags = None, namescope = None, devicescope = Some None,
         heap = [\<lparr>node_name = None, other_fields = 9\<rparr>, \<lparr>node_name = None, other_fields = 9\<rparr>]\<rparr>)"
proof -
  let ?d = "\<lparr>node_name = None, other_fields = 9\<rparr>"
  let ?n1 = "\<lparr>tags = None, namescope = Some ''a/'', devicescope = None, heap = []\<rparr>"
  let ?n2 = "\<lparr>tags = None, namescope = Some ''x'', devicescope = None, heap = []\<rparr>"
  let ?d1 = "\<lparr>tags = None, namescope = None, devicescope = Some (Some 1), heap = [?d, ?d]\<rparr>"
  let ?d2 = "\<lparr>tags = None, namescope = None, devicescope = Some None, heap = [?d, ?d]\<rparr>"
  let ?bn = "\<lambda>s. (None :: exn option, s\<lparr>namescope := Some ''x''\<rparr>)"
  let ?bd = "\<lambda>s. (None :: exn option, s\<lparr>devicescope := Some None\<rparr>)"
  have n: "NameScope_enter (Some ''a'') False (fresh_thread []) = (Inr ('''', ''a/''), ?n1) \<and>
           ?bn ?n1 = (None, ?n2) \<and> namescope ?n2 = Some ''x'' \<and> \<not> endswith ''x'' ''a/''"
    by (simp add: NameScope_enter_ok CurrentNameScope_def fresh_thread_def endswith_def)
  have d: "DeviceScope_enter (Some 0) None (fresh_thread [?d]) = (Inr (None, 1), ?d1) \<and>
           ?bd ?d1 = (None, ?d2) \<and> devicescope ?d2 = Some None \<and> \<not> DeviceOption_eq ?d2 None 1"
    by (simp add: DeviceScope_enter_def Let_def truthy_ref_def CopyFrom_def CurrentDeviceScope_def
          DeviceOption_new_def fresh_thread_def DeviceOption_eq_def)
  from corruption_assertion_skips_restore
         [where prefix = "Some ''a''" and reset = False and s = "fresh_thread []" and old = "''''"
            and seg = "''a/''" and s' = ?n1 and block = ?bn and out = None and s'' = ?n2
            and cur = "''x''", THEN conjunct1] n
  have 1: "NameScope (Some ''a'') False ?bn (fresh_thread []) =
     (Some (AssertionError ''The namescope variable is changed from outside NameScope() calls.''), ?n2)"
    by blast
  from corruption_assertion_skips_restore
         [where scope = "Some 0" and nn = None and s = "fresh_thread [?d]" and oldd = None
            and new = 1 and sd' = ?d1 and block = ?bd and out = None and sd'' = ?d2
            and curd = None, THEN conjunct2] d
  have 2: "DeviceScope (Some 0) None ?bd (fresh_thread [?d]) =
     (Some (AssertionError ''The device scope is changed from outside DeviceScope() calls.''), ?d2)"
    by blast
  from 1 2 show ?thesis by simp
qed

end
